theory Spec2Isabelle
  imports Complex_Main
begin

section \<open>The replay buffer of muzero-general (\<^verbatim>\<open>replay_buffer.py\<close>)\<close>

text \<open>
  A shallow embedding of the class \<^verbatim>\<open>ReplayBuffer\<close>. Conventions:
  \<^item> Python floats (rewards, root values, visit distributions, the discount) are
    modelled as real numbers: rounding and overflow of IEEE arithmetic are outside
    the model.
  \<^item> Python integers that the configuration compares or divides (\<^verbatim>\<open>window_size\<close>,
    \<^verbatim>\<open>batch_size\<close>, the symmetry flags, the play counter) are \<open>int\<close>.
  \<^item> The three index arguments of \<^verbatim>\<open>make_target\<close> are \<open>nat\<close>: \<^verbatim>\<open>state_index\<close>
    is drawn by \<^verbatim>\<open>sample_position\<close> from \<^verbatim>\<open>range(len(...))\<close>, and the
    configuration supplies non-negative \<^verbatim>\<open>num_unroll_steps\<close> and \<^verbatim>\<open>td_steps\<close>.
    Negative indices (Python's counting from the end) are therefore not modelled.
  \<^item> Every \<^verbatim>\<open>raise\<close> is a value \<open>Inl e\<close> of a sum type.
  \<^item> The global state of \<^verbatim>\<open>numpy.random\<close> is threaded explicitly.
\<close>

subsection \<open>Errors and list primitives of Python\<close>

text \<open>
  Two different \<^verbatim>\<open>ValueError\<close>s can leave \<^verbatim>\<open>get_batch\<close>: the one it raises itself
  when the batch size is not divisible, and the one \<^verbatim>\<open>numpy.random.choice\<close> raises
  on an empty sequence. The payload tells the raise sites apart, as the message does
  in Python.
\<close>

datatype value_error = Batch_size_not_divisible | Choice_from_empty

datatype error = ValueError value_error | IndexError | ZeroDivisionError

text \<open>\<^verbatim>\<open>xs[i]\<close> for \<open>i \<ge> 0\<close>: raises \<^verbatim>\<open>IndexError\<close> out of range.\<close>

definition py_get :: "'a list \<Rightarrow> nat \<Rightarrow> error + 'a" where
  "py_get xs i = (if i < length xs then Inr (xs ! i) else Inl IndexError)"

text \<open>\<^verbatim>\<open>xs[a:b]\<close> for \<open>a, b \<ge> 0\<close>: never raises, clips to the list.\<close>

definition py_slice :: "'a list \<Rightarrow> nat \<Rightarrow> nat \<Rightarrow> 'a list" where
  "py_slice xs a b = drop a (take b xs)"

text \<open>\<^verbatim>\<open>xs[:]\<close> (a copy) and \<^verbatim>\<open>xs[::-1]\<close> (the reversed list).\<close>

definition slice_all :: "'a list \<Rightarrow> 'a list" where
  "slice_all xs = xs"

definition slice_rev :: "'a list \<Rightarrow> 'a list" where
  "slice_rev xs = rev xs"

text \<open>\<^verbatim>\<open>enumerate(xs)\<close>.\<close>

definition enumerate_py :: "'a list \<Rightarrow> (nat \<times> 'a) list" where
  "enumerate_py xs = zip [0..<length xs] xs"

subsection \<open>Data model\<close>

text \<open>
  \<^verbatim>\<open>GameHistory\<close> is declared elsewhere in the repository; the buffer reads these six
  fields of it. Actions are integers (the absorbing state uses the action \<open>0\<close>).
\<close>

record ('o, 'p) game_history =
  observation_history :: "'o list"
  action_history :: "int list"
  reward_history :: "real list"
  root_values :: "real list"
  child_visits :: "real list list"
  to_play_history :: "'p list"

record config =
  window_size :: int
  batch_size :: int
  num_unroll_steps :: nat
  td_steps :: nat
  discount :: real

record ('o, 'p) replay_buffer =
  buffer :: "('o, 'p) game_history list"
  self_play_count :: int

text \<open>\<^verbatim>\<open>__init__\<close>.\<close>

definition init :: "('o, 'p) replay_buffer" where
  "init = \<lparr>buffer = [], self_play_count = 0\<rparr>"

subsection \<open>\<^verbatim>\<open>save_game\<close> and \<^verbatim>\<open>get_self_play_count\<close>\<close>

text \<open>\<^verbatim>\<open>xs.pop(0)\<close>: raises \<^verbatim>\<open>IndexError\<close> on the empty list.\<close>

definition pop0 :: "'a list \<Rightarrow> error + 'a list" where
  "pop0 xs = (case xs of [] \<Rightarrow> Inl IndexError | _ # rest \<Rightarrow> Inr rest)"

definition save_game ::
  "config \<Rightarrow> ('o, 'p) replay_buffer \<Rightarrow> ('o, 'p) game_history \<Rightarrow> error + ('o, 'p) replay_buffer" where
  "save_game cfg s game_history =
     (case (if int (length (buffer s)) > window_size cfg then pop0 (buffer s) else Inr (buffer s)) of
        Inl e \<Rightarrow> Inl e
      | Inr b \<Rightarrow> Inr (s\<lparr>buffer := b @ [game_history], self_play_count := self_play_count s + 1\<rparr>))"

text \<open>The getter returns the counter and the state it was read from.\<close>

definition get_self_play_count :: "('o, 'p) replay_buffer \<Rightarrow> int \<times> ('o, 'p) replay_buffer" where
  "get_self_play_count s = (self_play_count s, s)"

text \<open>A sequence of \<^verbatim>\<open>save_game\<close> calls; it stops at the first exception.\<close>

fun save_games ::
  "config \<Rightarrow> ('o, 'p) replay_buffer \<Rightarrow> ('o, 'p) game_history list \<Rightarrow> error + ('o, 'p) replay_buffer" where
  "save_games cfg s [] = Inr s"
| "save_games cfg s (g # gs) =
     (case save_game cfg s g of Inl e \<Rightarrow> Inl e | Inr s' \<Rightarrow> save_games cfg s' gs)"

subsection \<open>\<^verbatim>\<open>make_target\<close>\<close>

text \<open>
  The inner loop over \<^verbatim>\<open>enumerate(reward_history[current_index:bootstrap_index])\<close>,
  with \<^verbatim>\<open>value\<close> as the accumulator.
\<close>

fun add_rewards ::
  "('o, 'p) game_history \<Rightarrow> nat \<Rightarrow> real \<Rightarrow> (nat \<times> real) list \<Rightarrow> real \<Rightarrow> error + real" where
  "add_rewards g current_index d [] v = Inr v"
| "add_rewards g current_index d ((i, reward) # rest) v =
     (case py_get (to_play_history g) current_index of
        Inl e \<Rightarrow> Inl e
      | Inr p \<Rightarrow>
          (case py_get (to_play_history g) (current_index + i) of
             Inl e \<Rightarrow> Inl e
           | Inr q \<Rightarrow>
               add_rewards g current_index d rest
                 (v + (if p = q then reward else - reward) * d ^ i)))"

text \<open>The bootstrap value and the discounted rewards: lines 118 to 132.\<close>

definition target_value :: "('o, 'p) game_history \<Rightarrow> nat \<Rightarrow> nat \<Rightarrow> real \<Rightarrow> error + real" where
  "target_value g current_index td d =
     (let bootstrap_index = current_index + td in
      case (if bootstrap_index < length (root_values g)
            then (case py_get (root_values g) bootstrap_index of
                    Inl e \<Rightarrow> Inl e | Inr rv \<Rightarrow> Inr (rv * d ^ td))
            else Inr 0) of
        Inl e \<Rightarrow> Inl e
      | Inr v \<Rightarrow>
          add_rewards g current_index d
            (enumerate_py (py_slice (reward_history g) current_index bootstrap_index)) v)"

text \<open>One iteration of the loop over \<^verbatim>\<open>current_index\<close>: the four values it appends.\<close>

definition target_step ::
  "('o, 'p) game_history \<Rightarrow> nat \<Rightarrow> nat \<Rightarrow> real \<Rightarrow> error + (real \<times> real \<times> real list \<times> int)" where
  "target_step g current_index td d =
     (case target_value g current_index td d of
        Inl e \<Rightarrow> Inl e
      | Inr v \<Rightarrow>
          if current_index < length (root_values g)
          then (case py_get (reward_history g) current_index of
                  Inl e \<Rightarrow> Inl e
                | Inr r \<Rightarrow>
                    (case py_get (child_visits g) current_index of
                       Inl e \<Rightarrow> Inl e
                     | Inr p \<Rightarrow>
                         (case py_get (action_history g) current_index of
                            Inl e \<Rightarrow> Inl e
                          | Inr a \<Rightarrow> Inr (v, r, p, a))))
          else (case py_get (child_visits g) 0 of
                  Inl e \<Rightarrow> Inl e
                | Inr cv \<Rightarrow>
                    Inr (0, 0, map (\<lambda>_. 1 / real (length cv)) [0..<length cv], 0)))"

type_synonym targets = "real list \<times> real list \<times> real list list \<times> int list"

fun make_target_loop ::
  "('o, 'p) game_history \<Rightarrow> nat \<Rightarrow> real \<Rightarrow> nat list \<Rightarrow> targets \<Rightarrow> error + targets" where
  "make_target_loop g td d [] acc = Inr acc"
| "make_target_loop g td d (current_index # rest) (target_values, target_rewards, target_policies, actions) =
     (case target_step g current_index td d of
        Inl e \<Rightarrow> Inl e
      | Inr (v, r, p, a) \<Rightarrow>
          make_target_loop g td d rest
            (target_values @ [v], target_rewards @ [r], target_policies @ [p], actions @ [a]))"

definition make_target ::
  "('o, 'p) game_history \<Rightarrow> nat \<Rightarrow> nat \<Rightarrow> nat \<Rightarrow> real \<Rightarrow> error + targets" where
  "make_target g state_index unroll td d =
     make_target_loop g td d [state_index..<state_index + unroll + 1] ([], [], [], [])"

subsection \<open>Sampling\<close>

text \<open>
  The generator of \<^verbatim>\<open>numpy.random\<close>: an infinite supply of raw draws and the number
  of draws made so far. \<^verbatim>\<open>numpy.random.choice(xs)\<close> raises \<^verbatim>\<open>ValueError\<close> on an
  empty sequence, and otherwise returns an element of \<open>xs\<close> and advances the
  generator; every element can be returned.
\<close>

type_synonym rng = "(nat \<Rightarrow> nat) \<times> nat"

definition random_choice :: "'a list \<Rightarrow> rng \<Rightarrow> (error + 'a) \<times> rng" where
  "random_choice xs g =
     (if xs = [] then (Inl (ValueError Choice_from_empty), g)
      else (Inr (xs ! (fst g (snd g) mod length xs)), (fst g, Suc (snd g))))"

definition sample_game :: "('o, 'p) game_history list \<Rightarrow> rng \<Rightarrow> (error + ('o, 'p) game_history) \<times> rng" where
  "sample_game b g = random_choice b g"

definition sample_position :: "('o, 'p) game_history \<Rightarrow> rng \<Rightarrow> (error + nat) \<times> rng" where
  "sample_position game_history g = random_choice [0..<length (reward_history game_history)] g"

subsection \<open>\<^verbatim>\<open>get_batch\<close>\<close>

text \<open>
  The five lists, in the order the source returns them:
  observations, actions, values, rewards, policies.
\<close>

type_synonym 'o batch = "'o list \<times> int list list \<times> real list list \<times> real list list \<times> real list list list"

text \<open>The loop \<^verbatim>\<open>for _ in range(batch_size)\<close>; the accumulator holds the five raw lists.\<close>

fun draw_samples ::
  "config \<Rightarrow> ('o, 'p) game_history list \<Rightarrow> nat \<Rightarrow> rng \<Rightarrow> 'o batch \<Rightarrow> (error + 'o batch) \<times> rng" where
  "draw_samples cfg b 0 g acc = (Inr acc, g)"
| "draw_samples cfg b (Suc n) g (observation_batch, action_batch, value_batch, reward_batch, policy_batch) =
     (case sample_game b g of
        (Inl e, g1) \<Rightarrow> (Inl e, g1)
      | (Inr game_history, g1) \<Rightarrow>
          (case sample_position game_history g1 of
             (Inl e, g2) \<Rightarrow> (Inl e, g2)
           | (Inr game_pos, g2) \<Rightarrow>
               (case make_target game_history game_pos (num_unroll_steps cfg) (td_steps cfg) (discount cfg) of
                  Inl e \<Rightarrow> (Inl e, g2)
                | Inr (value, reward, policy, actions) \<Rightarrow>
                    (case py_get (observation_history game_history) game_pos of
                       Inl e \<Rightarrow> (Inl e, g2)
                     | Inr ob \<Rightarrow>
                         draw_samples cfg b n g2
                           (observation_batch @ [ob], action_batch @ [actions], value_batch @ [value],
                            reward_batch @ [reward], policy_batch @ [policy])))))"

text \<open>\<^verbatim>\<open>for _ in range(k): ext.extend(xs)\<close>, starting from a copy of \<open>xs\<close>.\<close>

definition extend_times :: "nat \<Rightarrow> 'a list \<Rightarrow> 'a list" where
  "extend_times k xs = xs @ concat (replicate k xs)"

text \<open>
  Lines 62 to 91. The three slicing chains are those of the source, applied to the
  Python list \<^verbatim>\<open>observation_batch\<close>.
\<close>

definition exploit ::
  "int list \<Rightarrow> 'o batch \<Rightarrow> error + 'o batch" where
  "exploit exploit_symmetries raw =
     (case raw of (observation_batch, action_batch, value_batch, reward_batch, policy_batch) \<Rightarrow>
      (case py_get exploit_symmetries 0 of
         Inl e \<Rightarrow> Inl e
       | Inr f0 \<Rightarrow>
      let ext1 = observation_batch @
                 (if f0 = 1 then slice_all (slice_rev (slice_all (slice_all observation_batch))) else [])
      in
      (case py_get exploit_symmetries 1 of
         Inl e \<Rightarrow> Inl e
       | Inr f1 \<Rightarrow>
      let ext2 = ext1 @
                 (if f1 = 1 then slice_rev (slice_all (slice_all (slice_all observation_batch))) else [])
      in
      (case py_get exploit_symmetries 2 of
         Inl e \<Rightarrow> Inl e
       | Inr f2 \<Rightarrow>
      let ext3 = ext2 @
                 (if f2 = 1 then slice_rev (slice_rev (slice_all (slice_all observation_batch))) else []);
          k = nat (sum_list exploit_symmetries)
      in Inr (ext3, extend_times k action_batch, extend_times k value_batch,
              extend_times k reward_batch, extend_times k policy_batch)))))"

definition get_batch ::
  "config \<Rightarrow> ('o, 'p) replay_buffer \<Rightarrow> int list \<Rightarrow> rng \<Rightarrow> (error + 'o batch) \<times> rng" where
  "get_batch cfg s exploit_symmetries g =
     (let total = sum_list exploit_symmetries in
      if total \<noteq> 0 \<and> total + 1 = 0 then (Inl ZeroDivisionError, g)
      else
        let n = (if total = 0 then batch_size cfg else batch_size cfg div (total + 1)) in
        if (total + 1) * n \<noteq> batch_size cfg then (Inl (ValueError Batch_size_not_divisible), g)
        else
          (case draw_samples cfg (buffer s) (nat n) g ([], [], [], [], []) of
             (Inl e, g') \<Rightarrow> (Inl e, g')
           | (Inr raw, g') \<Rightarrow> (exploit exploit_symmetries raw, g')))"

subsection \<open>The specification's side\<close>

text \<open>
  The invariant of the data model (section 3 of the specification): the five
  per-transition lists have one common length, at least 1, there is one observation
  more, and all visit distributions of a trajectory have the same length.
\<close>

definition wf_game :: "('o, 'p) game_history \<Rightarrow> bool" where
  "wf_game g \<longleftrightarrow>
     length (action_history g) = length (reward_history g) \<and>
     length (root_values g) = length (reward_history g) \<and>
     length (child_visits g) = length (reward_history g) \<and>
     length (to_play_history g) = length (reward_history g) \<and>
     length (observation_history g) = length (reward_history g) + 1 \<and>
     1 \<le> length (reward_history g) \<and>
     (\<forall>p \<in> set (child_visits g). length p = length (child_visits g ! 0))"

text \<open>
  The value target in the specification's words: the discounted root value at the
  bootstrap index when that index is valid, plus the discounted rewards at the offsets
  below \<open>td_steps\<close> that stay inside the recorded trajectory, each negated when the
  player to move there is not the player to move at \<open>c\<close>.
\<close>

definition signed_reward :: "('o, 'p) game_history \<Rightarrow> nat \<Rightarrow> nat \<Rightarrow> real" where
  "signed_reward g c i =
     (if to_play_history g ! (c + i) \<noteq> to_play_history g ! c
      then - (reward_history g ! (c + i)) else reward_history g ! (c + i))"

definition spec_value :: "('o, 'p) game_history \<Rightarrow> nat \<Rightarrow> nat \<Rightarrow> real \<Rightarrow> real" where
  "spec_value g c td d =
     (if c + td < length (root_values g) then root_values g ! (c + td) * d ^ td else 0) +
     (\<Sum>i<min td (length (reward_history g) - c). signed_reward g c i * d ^ i)"

text \<open>The entry of an absorbing state: zeros, the uniform policy, the action \<open>0\<close>.\<close>

definition absorbing :: "('o, 'p) game_history \<Rightarrow> real \<times> real \<times> real list \<times> int" where
  "absorbing g =
     (0, 0, replicate (length (child_visits g ! 0)) (1 / real (length (child_visits g ! 0))), 0)"

text \<open>What one iteration appends on a well-formed trajectory, in closed form.\<close>

definition step_closed :: "('o, 'p) game_history \<Rightarrow> nat \<Rightarrow> real \<Rightarrow> nat \<Rightarrow> real \<times> real \<times> real list \<times> int" where
  "step_closed g td d c =
     (if c < length (root_values g)
      then (spec_value g c td d, reward_history g ! c, child_visits g ! c, action_history g ! c)
      else absorbing g)"

text \<open>
  The geometric transformations of an observation tensor (channels, rows, columns)
  that the specification names: a horizontal flip reverses every row, a vertical flip
  reverses the order of the rows, the combined flip does both.
\<close>

definition flip_horizontal :: "'a list list list \<Rightarrow> 'a list list list" where
  "flip_horizontal ob = map (map rev) ob"

definition flip_vertical :: "'a list list list \<Rightarrow> 'a list list list" where
  "flip_vertical ob = map rev ob"

definition flip_diagonal :: "'a list list list \<Rightarrow> 'a list list list" where
  "flip_diagonal ob = flip_vertical (flip_horizontal ob)"

subsection \<open>Concrete inputs\<close>

datatype player = Player_A | Player_B

text \<open>The trajectory of the specification's zero-sum example (section 8).\<close>

definition zero_sum_game :: "(nat, player) game_history" where
  "zero_sum_game =
     \<lparr>observation_history = [0, 1, 2, 3], action_history = [0, 0, 0],
      reward_history = [1, 1, 1], root_values = [0, 0, 0, 5],
      child_visits = [[1], [1], [1]],
      to_play_history = [Player_A, Player_B, Player_A, Player_A]\<rparr>"

text \<open>A well-formed trajectory of two transitions over two actions, tagged by \<open>k\<close>.\<close>

definition board :: "nat \<Rightarrow> nat \<Rightarrow> nat list list list" where
  "board k t = [[[k, t], [t + 1, t + 2]]]"

definition game_of :: "nat \<Rightarrow> (nat list list list, player) game_history" where
  "game_of k =
     \<lparr>observation_history = [board k 0, board k 10, board k 20], action_history = [1, 2],
      reward_history = [1, 3], root_values = [2, 4],
      child_visits = [[1 / 4, 3 / 4], [1 / 2, 1 / 2]],
      to_play_history = [Player_A, Player_B]\<rparr>"

definition small_config :: config where
  "small_config =
     \<lparr>window_size = 1, batch_size = 4, num_unroll_steps = 1, td_steps = 1, discount = 1 / 2\<rparr>"

text \<open>A generator whose raw draws are \<open>0, 0, 1, 1, 2, 2, \<dots>\<close>.\<close>

definition pair_rng :: rng where
  "pair_rng = (\<lambda>n. n div 2, 0)"

text \<open>A buffer that holds one game.\<close>

definition one_game_store :: "(nat list list list, player) replay_buffer" where
  "one_game_store = \<lparr>buffer = [game_of 0], self_play_count = 1\<rparr>"

section \<open>The window store\<close>

lemma save_game_ok:
  assumes "0 \<le> window_size cfg"
  shows "save_game cfg s g =
     Inr (s\<lparr>buffer := (if int (length (buffer s)) > window_size cfg then tl (buffer s) else buffer s) @ [g],
            self_play_count := self_play_count s + 1\<rparr>)"
  using assms by (cases "buffer s") (auto simp: save_game_def pop0_def)

lemma save_games_from:
  assumes "0 \<le> window_size cfg"
    and "buffer s = drop (length pre - (nat (window_size cfg) + 1)) pre"
  shows "\<exists>s'. save_games cfg s gs = Inr s' \<and>
           buffer s' = drop (length (pre @ gs) - (nat (window_size cfg) + 1)) (pre @ gs) \<and>
           self_play_count s' = self_play_count s + int (length gs)"
  using assms(2)
proof (induction gs arbitrary: s pre)
  case Nil
  then show ?case by simp
next
  case (Cons g gs)
  let ?W = "nat (window_size cfg)"
  let ?s1 = "s\<lparr>buffer := (if int (length (buffer s)) > window_size cfg then tl (buffer s) else buffer s) @ [g],
            self_play_count := self_play_count s + 1\<rparr>"
  have step: "save_game cfg s g = Inr ?s1" by (rule save_game_ok [OF assms(1)])
  have len: "length (buffer s) = min (length pre) (?W + 1)"
    using Cons.prems by simp
  have b1: "buffer ?s1 = drop (length (pre @ [g]) - (?W + 1)) (pre @ [g])"
  proof (cases "length pre \<ge> ?W + 1")
    case True
    then have "int (length (buffer s)) > window_size cfg" using len assms(1) by simp
    moreover have "Suc (length pre - (?W + 1)) = length pre - ?W" using True by simp
    then have "tl (drop (length pre - (?W + 1)) pre) = drop (length pre - ?W) pre"
      by (metis tl_drop drop_Suc)
    ultimately show ?thesis using True Cons.prems by simp
  next
    case False
    then have "\<not> int (length (buffer s)) > window_size cfg" using len assms(1) by simp
    then show ?thesis using False Cons.prems by simp
  qed
  from Cons.IH [OF b1] obtain s' where
    "save_games cfg ?s1 gs = Inr s'"
    "buffer s' = drop (length ((pre @ [g]) @ gs) - (?W + 1)) ((pre @ [g]) @ gs)"
    "self_play_count s' = self_play_count ?s1 + int (length gs)" by blast
  then show ?case using step by simp
qed

text \<open>
  Claim C5. With a non-negative \<^verbatim>\<open>window_size\<close>, any sequence \<open>gs\<close> of
  \<^verbatim>\<open>save_game\<close> calls on the empty buffer succeeds, and the buffer then holds exactly
  the last \<open>window_size + 1\<close> insertions in insertion order. So its length never
  exceeds \<open>window_size + 1\<close>; what has been evicted is a prefix of the insertions
  (oldest first), each call removing at most the head of the buffer; and once more than
  \<open>window_size\<close> games were saved, the oldest survivor is the insertion \<open>window_size\<close>
  places before the newest.
\<close>

theorem save_game_window_fifo:
  assumes "0 \<le> window_size cfg"
  shows "\<exists>s. save_games cfg init gs = Inr s \<and>
           buffer s = drop (length gs - (nat (window_size cfg) + 1)) gs \<and>
           int (length (buffer s)) \<le> window_size cfg + 1 \<and>
           (window_size cfg < int (length gs) \<longrightarrow>
              hd (buffer s) = gs ! (length gs - 1 - nat (window_size cfg))) \<and>
           (\<forall>t g t'. save_game cfg t g = Inr t' \<longrightarrow>
              buffer t' = buffer t @ [g] \<or> buffer t' = tl (buffer t) @ [g])"
proof -
  have "buffer (init :: ('a, 'b) replay_buffer) = drop (length ([] :: ('a, 'b) game_history list) - (nat (window_size cfg) + 1)) []"
    by (simp add: init_def)
  from save_games_from [OF assms this, of gs] obtain s where
    run: "save_games cfg init gs = Inr s" and
    buf: "buffer s = drop (length gs - (nat (window_size cfg) + 1)) gs" by auto
  have bound: "int (length (buffer s)) \<le> window_size cfg + 1"
    using buf assms by simp
  have oldest: "hd (buffer s) = gs ! (length gs - 1 - nat (window_size cfg))"
    if "window_size cfg < int (length gs)"
  proof -
    have "length gs - (nat (window_size cfg) + 1) < length gs" using that assms by simp
    then have "hd (drop (length gs - (nat (window_size cfg) + 1)) gs) = gs ! (length gs - (nat (window_size cfg) + 1))"
      by (rule hd_drop_conv_nth)
    then show ?thesis using buf by simp
  qed
  have fifo: "buffer t' = buffer t @ [g] \<or> buffer t' = tl (buffer t) @ [g]"
    if "save_game cfg t g = Inr t'" for t t' :: "('c, 'd) replay_buffer" and g
    using that by (auto simp: save_game_def pop0_def split: if_splits list.splits)
  show ?thesis using run buf bound oldest fifo by blast
qed

text \<open>With \<open>window_size = 1\<close>, three saved games leave the last two.\<close>

theorem save_game_window_fifo_witness:
  "0 \<le> window_size small_config \<and>
   (\<exists>s. save_games small_config init [game_of 0, game_of 1, game_of 2] = Inr s \<and>
        buffer s = [game_of 1, game_of 2] \<and> hd (buffer s) = game_of 1)"
proof -
  have h: "0 \<le> window_size small_config" by (simp add: small_config_def)
  from save_game_window_fifo [OF h, of "[game_of 0, game_of 1, game_of 2]"] obtain s where
    run: "save_games small_config init [game_of 0, game_of 1, game_of 2] = Inr s" and
    buf: "buffer s = drop (length [game_of 0, game_of 1, game_of 2] - (nat (window_size small_config) + 1))
            [game_of 0, game_of 1, game_of 2]" by blast
  have "buffer s = [game_of 1, game_of 2]" using buf by (simp add: small_config_def)
  then show ?thesis using h run by simp
qed

text \<open>
  Claim C9. After the \<^verbatim>\<open>save_game\<close> calls for \<open>gs\<close> on the empty buffer,
  \<^verbatim>\<open>get_self_play_count\<close> returns the number of calls, whatever was evicted; a
  \<^verbatim>\<open>save_game\<close> call never lowers the counter; and reading the counter returns the
  state unchanged.
\<close>

theorem self_play_count_counts:
  assumes "0 \<le> window_size cfg"
  shows "(\<exists>s. save_games cfg init gs = Inr s \<and> fst (get_self_play_count s) = int (length gs)) \<and>
         (\<forall>s g s'. save_game cfg s g = Inr s' \<longrightarrow>
            fst (get_self_play_count s) \<le> fst (get_self_play_count s')) \<and>
         (\<forall>s. snd (get_self_play_count s) = s)"
proof -
  have "buffer (init :: ('a, 'b) replay_buffer) = drop (length ([] :: ('a, 'b) game_history list) - (nat (window_size cfg) + 1)) []"
    by (simp add: init_def)
  from save_games_from [OF assms this, of gs] obtain s where
    "save_games cfg init gs = Inr s" "self_play_count s = self_play_count (init :: ('a, 'b) replay_buffer) + int (length gs)" by auto
  then have a: "\<exists>s. save_games cfg init gs = Inr s \<and> fst (get_self_play_count s) = int (length gs)"
    by (auto simp: get_self_play_count_def init_def)
  have b: "fst (get_self_play_count s) \<le> fst (get_self_play_count s')"
    if "save_game cfg s g = Inr s'" for s s' :: "('c, 'd) replay_buffer" and g
    using that by (auto simp: save_game_def get_self_play_count_def split: if_splits sum.splits)
  have c: "snd (get_self_play_count s) = s" for s :: "('e, 'f) replay_buffer"
    by (simp add: get_self_play_count_def)
  show ?thesis using a b c by blast
qed

text \<open>Three saved games with \<open>window_size = 1\<close>: one eviction, counter 3.\<close>

theorem self_play_count_counts_witness:
  "0 \<le> window_size small_config \<and>
   (\<exists>s. save_games small_config init [game_of 0, game_of 1, game_of 2] = Inr s \<and>
        fst (get_self_play_count s) = 3)"
proof -
  have h: "0 \<le> window_size small_config" by (simp add: small_config_def)
  from self_play_count_counts [OF h, of "[game_of 0, game_of 1, game_of 2]"] obtain s where
    "save_games small_config init [game_of 0, game_of 1, game_of 2] = Inr s"
    "fst (get_self_play_count s) = int (length [game_of 0, game_of 1, game_of 2])" by blast
  then show ?thesis using h by auto
qed

text \<open>
  Claim C4. The claim that the stored count never exceeds \<^verbatim>\<open>window_size\<close> fails on
  the code: the guard of \<^verbatim>\<open>save_game\<close> is \<^verbatim>\<open>len(self.buffer) > window_size\<close>, so
  with \<open>window_size = 1\<close> the second game is appended without an eviction and two
  games are stored.
\<close>

theorem save_game_exceeds_window:
  "save_games small_config init [game_of 0, game_of 1] =
     Inr \<lparr>buffer = [game_of 0, game_of 1], self_play_count = 2\<rparr> \<and>
   window_size small_config = 1"
  by (simp add: save_game_def small_config_def init_def pop0_def)

section \<open>The target builder\<close>

lemma add_rewards_sum:
  assumes "c < length (to_play_history g)"
    and "\<forall>(i, r) \<in> set es. c + i < length (to_play_history g)"
  shows "add_rewards g c d es v =
     Inr (v + sum_list (map (\<lambda>(i, r).
            (if to_play_history g ! c = to_play_history g ! (c + i) then r else - r) * d ^ i) es))"
  using assms(2)
proof (induction es arbitrary: v)
  case Nil
  then show ?case by simp
next
  case (Cons e es)
  obtain i r where e: "e = (i, r)" by (cases e)
  have "c + i < length (to_play_history g)" using Cons.prems e by simp
  moreover have "\<forall>(i, r) \<in> set es. c + i < length (to_play_history g)" using Cons.prems by simp
  ultimately show ?case using assms(1) Cons.IH e by (simp add: py_get_def)
qed

lemma length_py_slice: "length (py_slice xs a (a + n)) = min n (length xs - a)"
  by (simp add: py_slice_def)

lemma nth_py_slice:
  assumes "i < length (py_slice xs a b)"
  shows "py_slice xs a b ! i = xs ! (a + i)"
proof -
  have "i < min (length xs) b - a" using assms by (simp add: py_slice_def)
  then have "a + i < min (length xs) b" by arith
  then have "a \<le> length (take b xs)" and "a + i < b" by simp_all
  then show ?thesis by (simp add: py_slice_def)
qed

lemma sum_list_enumerate:
  "sum_list (map (\<lambda>(i, r). F i r) (enumerate_py xs)) = (\<Sum>i<length xs. F i (xs ! i))"
proof -
  have "sum_list (map (\<lambda>(i, r). F i r) (enumerate_py xs)) =
        (\<Sum>i = 0..<length xs. map (\<lambda>(i, r). F i r) (enumerate_py xs) ! i)"
    by (simp add: sum_list_sum_nth enumerate_py_def)
  also have "\<dots> = (\<Sum>i = 0..<length xs. F i (xs ! i))"
    by (rule sum.cong) (simp_all add: enumerate_py_def)
  finally show ?thesis by (simp add: atLeast0LessThan)
qed

lemma target_value_closed:
  assumes "length (reward_history g) \<le> length (to_play_history g)"
  shows "target_value g c td d = Inr (spec_value g c td d)"
proof -
  let ?sl = "py_slice (reward_history g) c (c + td)"
  let ?v0 = "if c + td < length (root_values g) then root_values g ! (c + td) * d ^ td else 0"
  have len: "length ?sl = min td (length (reward_history g) - c)" by (rule length_py_slice)
  have tv: "target_value g c td d = add_rewards g c d (enumerate_py ?sl) ?v0"
    by (simp add: target_value_def py_get_def Let_def)
  show ?thesis
  proof (cases "c < length (reward_history g)")
    case False
    then have "?sl = []" using len by simp
    then show ?thesis using tv False by (simp add: enumerate_py_def spec_value_def)
  next
    case True
    have c: "c < length (to_play_history g)" using True assms by simp
    have rng: "\<forall>(i, r) \<in> set (enumerate_py ?sl). c + i < length (to_play_history g)"
      using assms len by (auto simp: enumerate_py_def dest!: set_zip_leftD)
    have "add_rewards g c d (enumerate_py ?sl) ?v0 =
          Inr (?v0 + (\<Sum>i<length ?sl.
             (if to_play_history g ! c = to_play_history g ! (c + i) then ?sl ! i else - (?sl ! i)) * d ^ i))"
      unfolding add_rewards_sum [OF c rng] sum_list_enumerate ..
    also have "(\<Sum>i<length ?sl.
             (if to_play_history g ! c = to_play_history g ! (c + i) then ?sl ! i else - (?sl ! i)) * d ^ i)
        = (\<Sum>i<length ?sl. signed_reward g c i * d ^ i)"
      by (rule sum.cong) (auto simp: signed_reward_def nth_py_slice)
    finally show ?thesis using tv len by (simp add: spec_value_def)
  qed
qed

lemma target_step_recorded:
  assumes "wf_game g" and "c < length (root_values g)"
  shows "target_step g c td d =
           Inr (spec_value g c td d, reward_history g ! c, child_visits g ! c, action_history g ! c)"
proof -
  have "target_value g c td d = Inr (spec_value g c td d)"
    using assms(1) by (intro target_value_closed) (simp add: wf_game_def)
  then show ?thesis using assms by (simp add: target_step_def py_get_def wf_game_def)
qed

lemma target_step_absorbing:
  assumes "wf_game g" and "length (root_values g) \<le> c"
  shows "target_step g c td d = Inr (absorbing g)"
proof -
  have "target_value g c td d = Inr (spec_value g c td d)"
    using assms(1) by (intro target_value_closed) (simp add: wf_game_def)
  moreover have "child_visits g \<noteq> []" using assms(1) by (auto simp: wf_game_def)
  ultimately show ?thesis using assms(2)
    by (simp add: target_step_def py_get_def absorbing_def map_replicate_const)
qed

lemma make_target_loop_closed:
  assumes "\<forall>c \<in> set cs. target_step g c td d = Inr (f c)"
  shows "make_target_loop g td d cs (tv, tr, tp, acts) =
     Inr (tv @ map (\<lambda>c. fst (f c)) cs, tr @ map (\<lambda>c. fst (snd (f c))) cs,
          tp @ map (\<lambda>c. fst (snd (snd (f c)))) cs, acts @ map (\<lambda>c. snd (snd (snd (f c)))) cs)"
  using assms
proof (induction cs arbitrary: tv tr tp acts)
  case Nil
  then show ?case by simp
next
  case (Cons c cs)
  obtain v r p a where f: "f c = (v, r, p, a)" by (cases "f c")
  have "target_step g c td d = Inr (v, r, p, a)" using Cons.prems f by simp
  moreover have "\<forall>c \<in> set cs. target_step g c td d = Inr (f c)" using Cons.prems by simp
  ultimately show ?case using Cons.IH f by simp
qed

lemma make_target_closed:
  assumes "wf_game g"
  shows "make_target g s n td d =
     Inr (map (\<lambda>c. fst (step_closed g td d c)) [s..<s + n + 1],
          map (\<lambda>c. fst (snd (step_closed g td d c))) [s..<s + n + 1],
          map (\<lambda>c. fst (snd (snd (step_closed g td d c)))) [s..<s + n + 1],
          map (\<lambda>c. snd (snd (snd (step_closed g td d c)))) [s..<s + n + 1])"
proof -
  have "\<forall>c \<in> set [s..<s + n + 1]. target_step g c td d = Inr (step_closed g td d c)"
    using assms by (simp add: step_closed_def target_step_recorded target_step_absorbing)
  from make_target_loop_closed [OF this, of "[]" "[]" "[]" "[]"]
  show ?thesis by (simp add: make_target_def)
qed

lemma nth_map_upt_from: "k \<le> n \<Longrightarrow> map f [s..<Suc (s + n)] ! k = f (s + k)"
  by (simp del: upt_Suc)

text \<open>The zero-sum example of the specification, run on the code.\<close>

lemma zero_sum_game_target:
  "make_target zero_sum_game 0 0 2 (1 / 2) = Inr ([1 / 2], [1], [[1]], [0])"
  by (simp add: make_target_def target_step_def target_value_def py_get_def py_slice_def
      enumerate_py_def zero_sum_game_def upt_rec)

text \<open>
  Claim C1. On a trajectory that satisfies the invariant of the data model,
  \<^verbatim>\<open>make_target\<close> returns, and the value target of every step
  \<open>current_index = s + k\<close> below \<open>len(root_values)\<close> is the discounted root value at
  \<open>current_index + td_steps\<close> when that is a valid index (and 0 otherwise) plus the
  discounted rewards at the offsets below \<open>td_steps\<close> inside the trajectory, a reward
  negated exactly when the player to move at its position is not the player to move at
  \<open>current_index\<close>. For the specification's example (rewards \<open>[1,1,1]\<close>, root values
  \<open>[0,0,0,5]\<close>, players \<open>[A,B,A,A]\<close>, discount \<open>1/2\<close>, \<open>td_steps = 2\<close>, start 0)
  the first value target is \<open>1/2\<close>. Floats are read as reals.
\<close>

theorem make_target_value_target:
  "(wf_game g \<longrightarrow>
      (\<exists>tv tr tp acts. make_target g s n td d = Inr (tv, tr, tp, acts) \<and> length tv = n + 1 \<and>
         (\<forall>k\<le>n. s + k < length (root_values g) \<longrightarrow> tv ! k = spec_value g (s + k) td d))) \<and>
   (\<exists>tr tp acts. make_target zero_sum_game 0 0 2 (1 / 2) = Inr ([1 / 2], tr, tp, acts))"
proof (intro conjI impI)
  assume wf: "wf_game g"
  let ?tv = "map (\<lambda>c. fst (step_closed g td d c)) [s..<s + n + 1]"
  have "\<forall>k\<le>n. s + k < length (root_values g) \<longrightarrow> ?tv ! k = spec_value g (s + k) td d"
    by (simp del: upt_Suc add: nth_map_upt_from step_closed_def)
  moreover have "length ?tv = n + 1" by simp
  ultimately show "\<exists>tv tr tp acts. make_target g s n td d = Inr (tv, tr, tp, acts) \<and> length tv = n + 1 \<and>
         (\<forall>k\<le>n. s + k < length (root_values g) \<longrightarrow> tv ! k = spec_value g (s + k) td d)"
    unfolding make_target_closed [OF wf] by blast
next
  show "\<exists>tr tp acts. make_target zero_sum_game 0 0 2 (1 / 2) = Inr ([1 / 2], tr, tp, acts)"
    using zero_sum_game_target by blast
qed

lemma wf_game_of: "wf_game (game_of k)"
  by (simp add: wf_game_def game_of_def)

text \<open>A trajectory of two transitions, unrolled two steps from its start.\<close>

theorem make_target_value_target_witness:
  "wf_game (game_of 0) \<and>
   (\<exists>tv tr tp acts. make_target (game_of 0) 0 2 1 (1 / 2) = Inr (tv, tr, tp, acts) \<and>
      tv ! 0 = 3 \<and> tv ! 1 = 3)"
proof -
  from make_target_value_target [of "game_of 0" 0 2 1 "1 / 2"] wf_game_of
  obtain tv tr tp acts where
    run: "make_target (game_of 0) 0 2 1 (1 / 2) = Inr (tv, tr, tp, acts)" and
    val: "\<forall>k\<le>2. 0 + k < length (root_values (game_of 0)) \<longrightarrow>
            tv ! k = spec_value (game_of 0) (0 + k) 1 (1 / 2)" by blast
  have "tv ! 0 = spec_value (game_of 0) 0 1 (1 / 2)" using val by (simp add: game_of_def)
  moreover have "tv ! 1 = spec_value (game_of 0) 1 1 (1 / 2)"
    using val [rule_format, of 1] by (simp add: game_of_def)
  moreover have "spec_value (game_of 0) 0 1 (1 / 2) = 3"
    by (simp add: spec_value_def signed_reward_def game_of_def)
  moreover have "spec_value (game_of 0) 1 1 (1 / 2) = 3"
    by (simp add: spec_value_def signed_reward_def game_of_def)
  ultimately show ?thesis using run wf_game_of by auto
qed

text \<open>
  Claim C6. On a well-formed trajectory over a non-empty action space, every entry
  that \<^verbatim>\<open>make_target\<close> produces at a step \<open>current_index = s + k\<close> at or past the
  recorded length has value target 0, reward target 0, the action 0, and a policy of
  length \<open>len(child_visits[0])\<close> whose entries all equal \<open>1 / len(child_visits[0])\<close>
  and sum to 1.
\<close>

theorem make_target_absorbing:
  assumes "wf_game g" and "child_visits g ! 0 \<noteq> []"
  shows "\<exists>tv tr tp acts. make_target g s n td d = Inr (tv, tr, tp, acts) \<and>
     (\<forall>k\<le>n. length (root_values g) \<le> s + k \<longrightarrow>
        tv ! k = 0 \<and> tr ! k = 0 \<and> acts ! k = 0 \<and>
        length (tp ! k) = length (child_visits g ! 0) \<and>
        (\<forall>x\<in>set (tp ! k). x = 1 / real (length (child_visits g ! 0))) \<and>
        sum_list (tp ! k) = 1)"
proof -
  have pos: "0 < length (child_visits g ! 0)" using assms(2) by simp
  have "\<forall>k\<le>n. length (root_values g) \<le> s + k \<longrightarrow>
        map (\<lambda>c. fst (step_closed g td d c)) [s..<s + n + 1] ! k = 0 \<and>
        map (\<lambda>c. fst (snd (step_closed g td d c))) [s..<s + n + 1] ! k = 0 \<and>
        map (\<lambda>c. snd (snd (snd (step_closed g td d c)))) [s..<s + n + 1] ! k = 0 \<and>
        length (map (\<lambda>c. fst (snd (snd (step_closed g td d c)))) [s..<s + n + 1] ! k) = length (child_visits g ! 0) \<and>
        (\<forall>x\<in>set (map (\<lambda>c. fst (snd (snd (step_closed g td d c)))) [s..<s + n + 1] ! k). x = 1 / real (length (child_visits g ! 0))) \<and>
        sum_list (map (\<lambda>c. fst (snd (snd (step_closed g td d c)))) [s..<s + n + 1] ! k) = 1"
    using pos by (simp del: upt_Suc add: nth_map_upt_from step_closed_def absorbing_def sum_list_replicate)
  then show ?thesis unfolding make_target_closed [OF assms(1)] by blast
qed

text \<open>Starting at the last transition and unrolling two steps: the third entry is absorbing.\<close>

theorem make_target_absorbing_witness:
  "wf_game (game_of 0) \<and> child_visits (game_of 0) ! 0 \<noteq> [] \<and>
   (\<exists>tv tr tp acts. make_target (game_of 0) 1 2 1 (1 / 2) = Inr (tv, tr, tp, acts) \<and>
      tv ! 2 = 0 \<and> tr ! 2 = 0 \<and> acts ! 2 = 0 \<and> length (tp ! 2) = 2 \<and> sum_list (tp ! 2) = 1)"
proof -
  have cv: "child_visits (game_of 0) ! 0 \<noteq> []" by (simp add: game_of_def)
  from make_target_absorbing [OF wf_game_of [of 0] cv, where s = 1 and n = 2 and td = 1 and d = "1 / 2"]
  obtain tv tr tp acts where
    run: "make_target (game_of 0) 1 2 1 (1 / 2) = Inr (tv, tr, tp, acts)" and
    ab: "\<forall>k\<le>2. length (root_values (game_of 0)) \<le> 1 + k \<longrightarrow>
        tv ! k = 0 \<and> tr ! k = 0 \<and> acts ! k = 0 \<and>
        length (tp ! k) = length (child_visits (game_of 0) ! 0) \<and>
        (\<forall>x\<in>set (tp ! k). x = 1 / real (length (child_visits (game_of 0) ! 0))) \<and>
        sum_list (tp ! k) = 1" by blast
  have "tv ! 2 = 0 \<and> tr ! 2 = 0 \<and> acts ! 2 = 0 \<and>
        length (tp ! 2) = length (child_visits (game_of 0) ! 0) \<and> sum_list (tp ! 2) = 1"
    using ab [rule_format, of 2] by (simp add: game_of_def)
  moreover have "length (child_visits (game_of 0) ! 0) = 2" by (simp add: game_of_def)
  ultimately show ?thesis using run wf_game_of cv by auto
qed

text \<open>
  Claim C7. On a well-formed trajectory \<^verbatim>\<open>make_target\<close> never raises
  \<^verbatim>\<open>IndexError\<close>: for every start, every \<open>num_unroll_steps\<close> and every \<open>td_steps\<close>
  it returns four lists of length \<open>num_unroll_steps + 1\<close>; and an iteration whose
  \<open>current_index\<close> is at or past the recorded length takes the absorbing-state branch.
\<close>

theorem make_target_in_bounds:
  assumes "wf_game g"
  shows "(\<exists>tv tr tp acts. make_target g s n td d = Inr (tv, tr, tp, acts) \<and>
            length tv = n + 1 \<and> length tr = n + 1 \<and> length tp = n + 1 \<and> length acts = n + 1) \<and>
         (\<forall>c. length (reward_history g) \<le> c \<longrightarrow> target_step g c td d = Inr (absorbing g))"
proof -
  have "length (root_values g) = length (reward_history g)" using assms by (simp add: wf_game_def)
  then have "\<forall>c. length (reward_history g) \<le> c \<longrightarrow> target_step g c td d = Inr (absorbing g)"
    using target_step_absorbing [OF assms] by simp
  then show ?thesis unfolding make_target_closed [OF assms] by simp
qed

text \<open>The same run, with the result of the code written out.\<close>

theorem make_target_in_bounds_witness:
  "wf_game (game_of 0) \<and>
   make_target (game_of 0) 1 2 1 (1 / 2) =
     Inr ([3, 0, 0], [3, 0, 0], [[1 / 2, 1 / 2], [1 / 2, 1 / 2], [1 / 2, 1 / 2]], [2, 0, 0]) \<and>
   target_step (game_of 0) 2 1 (1 / 2) = Inr (0, 0, [1 / 2, 1 / 2], 0)"
proof -
  from make_target_in_bounds [OF wf_game_of [of 0], where s = 1 and n = 2 and td = 1 and d = "1 / 2"]
  have "target_step (game_of 0) 2 1 (1 / 2) = Inr (absorbing (game_of 0))"
    by (simp add: game_of_def)
  moreover have "absorbing (game_of 0) = (0, 0, [1 / 2, 1 / 2], 0)"
    by (simp add: absorbing_def game_of_def numeral_2_eq_2)
  moreover have "make_target (game_of 0) 1 2 1 (1 / 2) =
     Inr ([3, 0, 0], [3, 0, 0], [[1 / 2, 1 / 2], [1 / 2, 1 / 2], [1 / 2, 1 / 2]], [2, 0, 0])"
    by (simp add: make_target_def target_step_def target_value_def py_get_def py_slice_def
      enumerate_py_def game_of_def upt_rec)
  ultimately show ?thesis using wf_game_of by simp
qed

section \<open>The batch assembler\<close>

text \<open>The only exception that can leave \<^verbatim>\<open>make_target\<close> is an \<^verbatim>\<open>IndexError\<close>.\<close>

lemma add_rewards_error: "add_rewards g c d es v = Inl e \<Longrightarrow> e = IndexError"
  by (induction g c d es v rule: add_rewards.induct)
     (auto simp: py_get_def split: if_splits sum.splits)

lemma target_value_error: "target_value g c td d = Inl e \<Longrightarrow> e = IndexError"
  by (auto simp: target_value_def py_get_def Let_def dest: add_rewards_error split: if_splits sum.splits)

lemma target_step_error: "target_step g c td d = Inl e \<Longrightarrow> e = IndexError"
  by (auto simp: target_step_def py_get_def dest: target_value_error split: if_splits sum.splits)

lemma make_target_loop_error: "make_target_loop g td d cs acc = Inl e \<Longrightarrow> e = IndexError"
  by (induction g td d cs acc rule: make_target_loop.induct)
     (auto dest: target_step_error split: sum.splits)

lemma make_target_error: "make_target g s n td d = Inl e \<Longrightarrow> e = IndexError"
  unfolding make_target_def by (rule make_target_loop_error)

lemma random_choice_error:
  "random_choice xs g = (Inl e, g') \<Longrightarrow> e = ValueError Choice_from_empty"
  by (auto simp: random_choice_def split: if_splits)

text \<open>The sampling loop never raises the batch-size error.\<close>

lemma draw_samples_error:
  "draw_samples cfg b n g acc \<noteq> (Inl (ValueError Batch_size_not_divisible), g')"
proof (induction n arbitrary: g acc g')
  case 0
  then show ?case by simp
next
  case (Suc n)
  obtain ob ab vb rb pb where acc: "acc = (ob, ab, vb, rb, pb)" by (cases acc)
  show ?case
    unfolding acc
    by (auto simp: sample_game_def sample_position_def py_get_def Suc.IH
        dest!: random_choice_error make_target_error
        split: prod.splits sum.splits if_splits)
qed

lemma exploit_error: "exploit flags raw = Inl e \<Longrightarrow> e = IndexError"
  by (auto simp: exploit_def py_get_def Let_def split: prod.splits if_splits sum.splits)

text \<open>Every iteration of the sampling loop appends one entry to each of the five lists.\<close>

lemma draw_samples_lengths:
  "draw_samples cfg b n g (ob, ab, vb, rb, pb) = (Inr (ob', ab', vb', rb', pb'), g') \<Longrightarrow>
     length ob' = length ob + n \<and> length ab' = length ab + n \<and> length vb' = length vb + n \<and>
     length rb' = length rb + n \<and> length pb' = length pb + n"
proof (induction cfg b n g "(ob, ab, vb, rb, pb)" arbitrary: ob ab vb rb pb g' rule: draw_samples.induct)
  case (1 cfg b g)
  then show ?case by simp
next
  case (2 cfg b n g ob ab vb rb pb)
  from "2.prems" "2.hyps" show ?case
    by (fastforce split: prod.splits sum.splits)
qed

text \<open>For flags that are 0 or 1, \<^verbatim>\<open>sum(exploit_symmetries)\<close> counts the enabled ones.\<close>

lemma sum_list_flags:
  "set flags \<subseteq> {0, 1} \<Longrightarrow> sum_list flags = int (length (filter (\<lambda>f. f = 1) flags))"
  by (induction flags) auto

lemma mult_div_eq_iff_dvd: "(0::int) < m \<Longrightarrow> m * (b div m) = b \<longleftrightarrow> m dvd b"
  by (metis dvd_mult_div_cancel dvd_triv_left)


text \<open>
  Claim C8. For symmetry flags that are 0 or 1, with \<open>k\<close> of them enabled,
  \<^verbatim>\<open>get_batch\<close> raises its own \<^verbatim>\<open>ValueError\<close> (the batch-size error) if and only if
  \<open>k + 1\<close> does not divide \<^verbatim>\<open>batch_size\<close>; and when it does, the generator is
  returned as it was passed: no trajectory was sampled and no target built, whatever
  the buffer holds.
\<close>

theorem get_batch_value_error:
  assumes "set flags \<subseteq> {0, 1}"
  shows "(fst (get_batch cfg s flags g) = Inl (ValueError Batch_size_not_divisible) \<longleftrightarrow>
            \<not> (int (length (filter (\<lambda>f. f = 1) flags)) + 1) dvd batch_size cfg) \<and>
         (\<not> (int (length (filter (\<lambda>f. f = 1) flags)) + 1) dvd batch_size cfg \<longrightarrow>
            get_batch cfg s flags g = (Inl (ValueError Batch_size_not_divisible), g))"
proof -
  define k where "k = int (length (filter (\<lambda>f. f = 1) flags))"
  define n where "n = (if k = 0 then batch_size cfg else batch_size cfg div (k + 1))"
  have total: "sum_list flags = k" unfolding k_def by (rule sum_list_flags [OF assms])
  have k0: "0 \<le> k" by (simp add: k_def)
  have "n = batch_size cfg div (k + 1)" by (simp add: n_def)
  moreover have "(k + 1) * (batch_size cfg div (k + 1)) = batch_size cfg \<longleftrightarrow> (k + 1) dvd batch_size cfg"
    using k0 by (intro mult_div_eq_iff_dvd) simp
  ultimately have check: "(k + 1) * n = batch_size cfg \<longleftrightarrow> (k + 1) dvd batch_size cfg" by simp
  have unfold: "get_batch cfg s flags g =
      (if (k + 1) * n \<noteq> batch_size cfg then (Inl (ValueError Batch_size_not_divisible), g)
       else (case draw_samples cfg (buffer s) (nat n) g ([], [], [], [], []) of
               (Inl e, g') \<Rightarrow> (Inl e, g')
             | (Inr raw, g') \<Rightarrow> (exploit flags raw, g')))"
    using k0 by (simp add: get_batch_def total Let_def n_def)
  have "fst (get_batch cfg s flags g) = Inl (ValueError Batch_size_not_divisible) \<longleftrightarrow>
          \<not> (k + 1) dvd batch_size cfg"
  proof (cases "(k + 1) dvd batch_size cfg")
    case False
    then show ?thesis using check unfold by simp
  next
    case True
    obtain r g1 where d: "draw_samples cfg (buffer s) (nat n) g ([], [], [], [], []) = (r, g1)"
      by (cases "draw_samples cfg (buffer s) (nat n) g ([], [], [], [], [])")
    have run: "get_batch cfg s flags g =
        (case r of Inl e \<Rightarrow> (Inl e, g1) | Inr raw \<Rightarrow> (exploit flags raw, g1))"
      using True check unfold d by simp
    have "fst (get_batch cfg s flags g) \<noteq> Inl (ValueError Batch_size_not_divisible)"
    proof (cases r)
      case (Inl e)
      then have "e \<noteq> ValueError Batch_size_not_divisible"
        using d draw_samples_error [of cfg "buffer s" "nat n" g "([], [], [], [], [])" g1] by auto
      then show ?thesis unfolding run Inl by simp
    next
      case (Inr raw)
      have "exploit flags raw \<noteq> Inl (ValueError Batch_size_not_divisible)"
        using exploit_error [of flags raw] by fastforce
      then show ?thesis unfolding run Inr by simp
    qed
    then show ?thesis using True by simp
  qed
  moreover have "get_batch cfg s flags g = (Inl (ValueError Batch_size_not_divisible), g)"
    if "\<not> (k + 1) dvd batch_size cfg"
    using that check unfold by simp
  ultimately show ?thesis unfolding k_def by blast
qed

text \<open>
  One flag enabled: a batch size of 3 is rejected before sampling, even on an empty
  buffer; a batch size of 4 is not rejected.
\<close>

theorem get_batch_value_error_witness:
  "set [1, 0, 0] \<subseteq> {0, 1 :: int} \<and>
   get_batch (small_config\<lparr>batch_size := 3\<rparr>) (init :: (nat, player) replay_buffer) [1, 0, 0] pair_rng =
     (Inl (ValueError Batch_size_not_divisible), pair_rng) \<and>
   fst (get_batch small_config one_game_store [1, 0, 0] pair_rng) \<noteq>
     Inl (ValueError Batch_size_not_divisible)"
proof -
  have f: "set [1, 0, 0] \<subseteq> {0, 1 :: int}" by simp
  have "get_batch (small_config\<lparr>batch_size := 3\<rparr>) (init :: (nat, player) replay_buffer) [1, 0, 0] pair_rng =
     (Inl (ValueError Batch_size_not_divisible), pair_rng)"
    using get_batch_value_error [OF f, of "small_config\<lparr>batch_size := 3\<rparr>" "init :: (nat, player) replay_buffer" pair_rng]
    by (simp add: small_config_def)
  moreover have "fst (get_batch small_config one_game_store [1, 0, 0] pair_rng) \<noteq>
     Inl (ValueError Batch_size_not_divisible)"
    using get_batch_value_error [OF f, of small_config one_game_store pair_rng]
    by (simp add: small_config_def)
  ultimately show ?thesis using f by blast
qed

text \<open>
  Claim C10. With only the third flag enabled, a batch that \<^verbatim>\<open>get_batch\<close> returns is
  the raw batch of \<open>batch_size div 2\<close> drawn samples followed by an identical copy of
  itself, in each of the five lists: \<^verbatim>\<open>[::-1][::-1]\<close> restores the order of the
  observations and changes none of them, so the entry at \<open>n + i\<close> is the entry at \<open>i\<close>.
\<close>

theorem get_batch_diagonal_duplicates:
  assumes "get_batch cfg s [0, 0, 1] g = (Inr batch, g')"
  shows "\<exists>ob ab vb rb pb.
           draw_samples cfg (buffer s) (nat (batch_size cfg div 2)) g ([], [], [], [], []) =
             (Inr (ob, ab, vb, rb, pb), g') \<and>
           batch = (ob @ ob, ab @ ab, vb @ vb, rb @ rb, pb @ pb) \<and>
           length ob = nat (batch_size cfg div 2) \<and> length ab = length ob \<and>
           length vb = length ob \<and> length rb = length ob \<and> length pb = length ob"
proof -
  let ?draw = "draw_samples cfg (buffer s) (nat (batch_size cfg div 2)) g ([], [], [], [], [])"
  have ok: "2 * (batch_size cfg div 2) = batch_size cfg"
    using assms by (auto simp: get_batch_def Let_def split: if_splits)
  then have run: "get_batch cfg s [0, 0, 1] g =
          (case ?draw of (Inl e, g') \<Rightarrow> (Inl e, g') | (Inr raw, g') \<Rightarrow> (exploit [0, 0, 1] raw, g'))"
    by (simp add: get_batch_def Let_def)
  obtain r g1 where d: "?draw = (r, g1)" by (cases ?draw)
  obtain raw where r: "r = Inr raw" and g1: "g1 = g'" and ex: "exploit [0, 0, 1] raw = Inr batch"
    using assms unfolding run d by (cases r) auto
  obtain ob ab vb rb pb where raw: "raw = (ob, ab, vb, rb, pb)" by (cases raw)
  have batch: "batch = (ob @ ob, ab @ ab, vb @ vb, rb @ rb, pb @ pb)"
    using ex unfolding raw
    by (simp add: exploit_def py_get_def slice_all_def slice_rev_def extend_times_def)
  have drawn: "?draw = (Inr (ob, ab, vb, rb, pb), g')" using d r g1 raw by simp
  from draw_samples_lengths [OF drawn]
  show ?thesis using drawn batch by simp
qed

text \<open>A batch of four from a buffer of one game: two samples, then the same two again.\<close>

theorem get_batch_diagonal_duplicates_witness:
  "\<exists>g'. get_batch small_config one_game_store [0, 0, 1] pair_rng =
     (Inr ([board 0 0, board 0 10] @ [board 0 0, board 0 10],
           [[1, 2], [2, 0]] @ [[1, 2], [2, 0]],
           [[3, 3], [3, 0]] @ [[3, 3], [3, 0]],
           [[1, 3], [3, 0]] @ [[1, 3], [3, 0]],
           [[[1 / 4, 3 / 4], [1 / 2, 1 / 2]], [[1 / 2, 1 / 2], [1 / 2, 1 / 2]]] @
           [[[1 / 4, 3 / 4], [1 / 2, 1 / 2]], [[1 / 2, 1 / 2], [1 / 2, 1 / 2]]]), g')"
proof -
  obtain r g' where run: "get_batch small_config one_game_store [0, 0, 1] pair_rng = (r, g')"
    by (cases "get_batch small_config one_game_store [0, 0, 1] pair_rng")
  have "fst (get_batch small_config one_game_store [0, 0, 1] pair_rng) =
     Inr ([board 0 0, board 0 10, board 0 0, board 0 10],
           [[1, 2], [2, 0], [1, 2], [2, 0]],
           [[3, 3], [3, 0], [3, 3], [3, 0]],
           [[1, 3], [3, 0], [1, 3], [3, 0]],
           [[[1 / 4, 3 / 4], [1 / 2, 1 / 2]], [[1 / 2, 1 / 2], [1 / 2, 1 / 2]],
            [[1 / 4, 3 / 4], [1 / 2, 1 / 2]], [[1 / 2, 1 / 2], [1 / 2, 1 / 2]]])"
    by code_simp
  then obtain batch where r: "r = Inr batch" and
    b: "batch = ([board 0 0, board 0 10, board 0 0, board 0 10],
           [[1, 2], [2, 0], [1, 2], [2, 0]],
           [[3, 3], [3, 0], [3, 3], [3, 0]],
           [[1, 3], [3, 0], [1, 3], [3, 0]],
           [[[1 / 4, 3 / 4], [1 / 2, 1 / 2]], [[1 / 2, 1 / 2], [1 / 2, 1 / 2]],
            [[1 / 4, 3 / 4], [1 / 2, 1 / 2]], [[1 / 2, 1 / 2], [1 / 2, 1 / 2]]])"
    using run by simp
  from get_batch_diagonal_duplicates [OF run [unfolded r]]
  obtain ob ab vb rb pb where
    "batch = (ob @ ob, ab @ ab, vb @ vb, rb @ rb, pb @ pb)" by blast
  then show ?thesis using run r b by simp
qed

text \<open>
  The code run with only the first flag enabled, on a buffer of one game, with draws
  that select position 0 and then position 1.
\<close>

lemma get_batch_horizontal_example:
  "fst (get_batch small_config one_game_store [1, 0, 0] pair_rng) =
     Inr ([board 0 0, board 0 10, board 0 10, board 0 0],
           [[1, 2], [2, 0], [1, 2], [2, 0]],
           [[3, 3], [3, 0], [3, 3], [3, 0]],
           [[1, 3], [3, 0], [1, 3], [3, 0]],
           [[[1 / 4, 3 / 4], [1 / 2, 1 / 2]], [[1 / 2, 1 / 2], [1 / 2, 1 / 2]],
            [[1 / 4, 3 / 4], [1 / 2, 1 / 2]], [[1 / 2, 1 / 2], [1 / 2, 1 / 2]]])"
  by code_simp

text \<open>
  Claim C2. The claim that the observations appended for an enabled flag are the
  collected observations, each flipped along a spatial axis, fails on the code. The
  chained slices \<^verbatim>\<open>[:][:][::-1][:]\<close> act on the Python list of observations, so the
  appended block is the list of collected observations in reverse order, each one
  unchanged; here it differs from the flipped observations for each of the three flips.
\<close>

theorem get_batch_horizontal_not_flipped:
  "(\<exists>ab vb rb pb. fst (get_batch small_config one_game_store [1, 0, 0] pair_rng) =
      Inr ([board 0 0, board 0 10] @ [board 0 10, board 0 0], ab, vb, rb, pb)) \<and>
   [board 0 10, board 0 0] = rev [board 0 0, board 0 10] \<and>
   [board 0 10, board 0 0] \<noteq> map flip_horizontal [board 0 0, board 0 10] \<and>
   [board 0 10, board 0 0] \<noteq> map flip_vertical [board 0 0, board 0 10] \<and>
   [board 0 10, board 0 0] \<noteq> map flip_diagonal [board 0 0, board 0 10]"
  using get_batch_horizontal_example
  by (simp add: board_def flip_horizontal_def flip_vertical_def flip_diagonal_def)

text \<open>
  Claim C3. The claim that every entry of an augmented copy carries the labels of the
  sample its observation comes from fails on the code. With the first flag enabled,
  entry 2 of the observations is the observation of sample 1, while entry 2 of the
  actions, values, rewards and policies is the label of sample 0, which differs from
  that of sample 1.
\<close>

theorem get_batch_labels_misaligned:
  "(\<exists>ob ab vb rb pb. fst (get_batch small_config one_game_store [1, 0, 0] pair_rng) =
      Inr (ob, ab, vb, rb, pb) \<and>
      ob ! 2 = ob ! 1 \<and> ob ! 2 \<noteq> ob ! 0 \<and>
      ab ! 2 = ab ! 0 \<and> ab ! 2 \<noteq> ab ! 1 \<and>
      vb ! 2 = vb ! 0 \<and> vb ! 2 \<noteq> vb ! 1 \<and>
      rb ! 2 = rb ! 0 \<and> rb ! 2 \<noteq> rb ! 1 \<and>
      pb ! 2 = pb ! 0 \<and> pb ! 2 \<noteq> pb ! 1)"
  using get_batch_horizontal_example
  by (simp add: board_def)

end
